theory Spec2Isabelle
  imports Main "HOL-Library.Sublist"
begin

section \<open>The documentation copier \<open>scripts/translate_docs.py\<close>\<close>

text \<open>
  The script walks a hard-coded list of nine file names. For each name that exists in the
  source directory it reads the file as text, prepends a marker line, runs a link-rewriting
  loop over the text and writes the result under the same name into the subdirectory
  \<open>en\<close>; for each name that does not exist it prints a notice.

  The model passes an explicit world through the calls of \<open>main\<close>: the part of the file
  system below the source directory, the lines printed so far, the file-system calls made
  so far, and the exception that is propagating, if any. A Python exception does not undo
  the writes made before it, so an exception is a field of the world and not a replacement
  for it.
\<close>

subsection \<open>The file system\<close>

text \<open>
  A path is the list of components below \<open>SRC_DIR\<close>: \<open>[]\<close> is the source directory itself,
  \<open>[''en'']\<close> the destination directory, \<open>[''en'', f]\<close> a destination file.

  A path holds a directory, a regular file that decodes as UTF-8 text, or a regular file
  that does not. The content of a text file is the sequence of its decoded characters,
  carriage returns included. Permissions are below this model. Every path names a node
  of its own: there are no symbolic or hard links, so a write to one path changes no other.
\<close>

type_synonym path = "string list"

datatype node = Dir | Text string | Binary

type_synonym filesystem = "path \<rightharpoonup> node"

datatype error =
    FileExistsError
  | FileNotFoundError
  | NotADirectoryError
  | IsADirectoryError
  | UnicodeDecodeError

datatype event = Mkdir path | Exists path | Read path | Write path

record world =
  files :: filesystem
  stdout :: "string list"
  log :: "event list"
  raised :: "error option"

definition touch :: "event \<Rightarrow> world \<Rightarrow> world" where
  "touch e w = w\<lparr>log := log w @ [e]\<rparr>"

definition raise :: "error \<Rightarrow> world \<Rightarrow> world" where
  "raise e w = w\<lparr>raised := Some e\<rparr>"

text \<open>\<open>print(line)\<close>: one more line on the standard output.\<close>

definition print :: "string \<Rightarrow> world \<Rightarrow> world" where
  "print line w = w\<lparr>stdout := stdout w @ [line]\<rparr>"

text \<open>
  \<open>Path.mkdir(exist_ok=True)\<close>, with \<open>parents\<close> left at \<open>False\<close>: \<open>os.mkdir\<close> fails when the
  parent is missing or is not a directory; when the path exists already, the error is
  swallowed only if the path is a directory.
\<close>

definition mkdir_exist_ok :: "path \<Rightarrow> world \<Rightarrow> world" where
  "mkdir_exist_ok p w =
     (let w1 = touch (Mkdir p) w in
      case files w1 (butlast p) of
        None \<Rightarrow> raise FileNotFoundError w1
      | Some Dir \<Rightarrow>
          (case files w1 p of
             None \<Rightarrow> w1\<lparr>files := (files w1)(p \<mapsto> Dir)\<rparr>
           | Some Dir \<Rightarrow> w1
           | Some _ \<Rightarrow> raise FileExistsError w1)
      | Some _ \<Rightarrow> raise NotADirectoryError w1)"

text \<open>\<open>Path.exists()\<close>: true for whatever the path holds, a directory included.\<close>

definition path_exists :: "path \<Rightarrow> world \<Rightarrow> bool \<times> world" where
  "path_exists p w = (files w p \<noteq> None, touch (Exists p) w)"

text \<open>
  \<open>with open(p, encoding="utf-8") as f: content = f.read()\<close>. The file is opened in
  text mode with \<open>newline\<close> left at \<open>None\<close>, so the string that \<open>read\<close> returns has every
  line ending of the file, CR LF or a lone CR, turned into LF.
\<close>

definition newline :: char where
  "newline = CHR 0x0A"

definition carriage_return :: char where
  "carriage_return = CHR 0x0D"

fun universal_newlines :: "string \<Rightarrow> string" where
  "universal_newlines [] = []"
| "universal_newlines [c] = [if c = carriage_return then newline else c]"
| "universal_newlines (c # d # cs) =
     (if c = carriage_return then
        (if d = newline then newline # universal_newlines cs
         else newline # universal_newlines (d # cs))
      else c # universal_newlines (d # cs))"

definition read_text :: "path \<Rightarrow> world \<Rightarrow> string option \<times> world" where
  "read_text p w =
     (let w1 = touch (Read p) w in
      case files w1 p of
        None \<Rightarrow> (None, raise FileNotFoundError w1)
      | Some Dir \<Rightarrow> (None, raise IsADirectoryError w1)
      | Some Binary \<Rightarrow> (None, raise UnicodeDecodeError w1)
      | Some (Text content) \<Rightarrow> (Some (universal_newlines content), w1))"

text \<open>
  \<open>with open(p, "w", encoding="utf-8") as f: f.write(text)\<close>: creates or truncates. On
  writing, text mode turns LF into \<open>os.linesep\<close>; the model takes the line separator to be
  LF, as on POSIX systems, so the characters are stored as they are.
\<close>

definition write_text :: "path \<Rightarrow> string \<Rightarrow> world \<Rightarrow> world" where
  "write_text p text w =
     (let w1 = touch (Write p) w in
      case files w1 (butlast p) of
        None \<Rightarrow> raise FileNotFoundError w1
      | Some Dir \<Rightarrow>
          (case files w1 p of
             Some Dir \<Rightarrow> raise IsADirectoryError w1
           | _ \<Rightarrow> w1\<lparr>files := (files w1)(p \<mapsto> Text text)\<rparr>)
      | Some _ \<Rightarrow> raise NotADirectoryError w1)"

subsection \<open>Strings\<close>

text \<open>
  \<open>str.replace(old, new)\<close>: every non-overlapping occurrence of \<open>old\<close>, found from the
  left, becomes \<open>new\<close>; an empty \<open>old\<close> matches before every character and at the end.
\<close>

function replace :: "'a list \<Rightarrow> 'a list \<Rightarrow> 'a list \<Rightarrow> 'a list" where
  "replace [] old new = (if old = [] then new else [])"
| "replace (c # cs) old new =
     (if old = [] then new @ c # replace cs old new
      else if prefix old (c # cs) then new @ replace (drop (length old) (c # cs)) old new
      else c # replace cs old new)"
  by pat_completeness auto
termination
  by (relation "measure (\<lambda>(s, old, new). length s)") auto

subsection \<open>The script\<close>

text \<open>
  \<open>fake_translate\<close> puts a fixed line in front of the content; the line, a literal in the
  source, is named \<open>MARKER\<close> here.
\<close>

definition MARKER :: string where
  "MARKER = ''<!-- TRANSLATED TO ENGLISH (replace with real translation) -->'' @ [newline]"

definition fake_translate :: "string \<Rightarrow> string" where
  "fake_translate content = MARKER @ content"

text \<open>
  \<open>SRC_DIR\<close> is \<open>Path(__file__).parent / ".." / "docs"\<close>, the root of the paths of this
  model, and \<open>DST_DIR = SRC_DIR / "en"\<close>.
\<close>

definition SRC_DIR :: path where
  "SRC_DIR = []"

definition DST_DIR :: path where
  "DST_DIR = SRC_DIR @ [''en'']"

definition FILES :: "string list" where
  "FILES =
     [''OVERVIEW.md'',
      ''QUICK_START.md'',
      ''FRONTEND_INTEGRATION.md'',
      ''INTERMEDIATE_GUIDE.md'',
      ''EXPERT_GUIDE.md'',
      ''MIGRATION_V1_V2.md'',
      ''IMPLEMENTATION_NOTES.md'',
      ''FAQ.md'',
      ''CONTRIBUTING.md'']"

text \<open>The inner loop of \<open>main\<close>: \<open>for f2 in FILES: if f2 != fname: translated = ...\<close>.\<close>

definition adjust_links :: "string \<Rightarrow> string \<Rightarrow> string" where
  "adjust_links fname translated =
     fold (\<lambda>f2 t. if f2 \<noteq> fname then replace t (''./'' @ f2) (''./'' @ f2) else t)
       FILES translated"

text \<open>The body of the outer loop, for one \<open>fname\<close>.\<close>

definition translate_file :: "string \<Rightarrow> world \<Rightarrow> world" where
  "translate_file fname w =
     (let src = SRC_DIR @ [fname];
          dst = DST_DIR @ [fname];
          (found, w1) = path_exists src w
      in if found then
           (case read_text src w1 of
              (None, w2) \<Rightarrow> w2
            | (Some content, w2) \<Rightarrow>
                (let translated = adjust_links fname (fake_translate content);
                     w3 = write_text dst translated w2
                 in if raised w3 = None
                    then print (''Translated '' @ fname @ '' -> en/'' @ fname) w3
                    else w3))
         else print (''Source file missing: '' @ fname) w1)"

text \<open>A \<open>for\<close> loop whose body may raise: the first exception ends it.\<close>

fun for_each :: "'a list \<Rightarrow> ('a \<Rightarrow> world \<Rightarrow> world) \<Rightarrow> world \<Rightarrow> world" where
  "for_each [] body w = w"
| "for_each (x # xs) body w =
     (let w1 = body x w in if raised w1 = None then for_each xs body w1 else w1)"

definition start :: "filesystem \<Rightarrow> world" where
  "start fs = \<lparr>files = fs, stdout = [], log = [], raised = None\<rparr>"

definition main :: "filesystem \<Rightarrow> world" where
  "main fs =
     (let w1 = mkdir_exist_ok DST_DIR (start fs)
      in if raised w1 = None then for_each FILES translate_file w1 else w1)"

section \<open>Descriptions of a run\<close>

text \<open>
  What the script is expected to print for a name, and the file-system calls it is expected
  to make for it, both read off the initial file system.
\<close>

definition notice :: "filesystem \<Rightarrow> string \<Rightarrow> string" where
  "notice fs f =
     (if fs (SRC_DIR @ [f]) = None then ''Source file missing: '' @ f
      else ''Translated '' @ f @ '' -> en/'' @ f)"

definition accesses :: "filesystem \<Rightarrow> string \<Rightarrow> event list" where
  "accesses fs f =
     (if fs (SRC_DIR @ [f]) = None then [Exists (SRC_DIR @ [f])]
      else [Exists (SRC_DIR @ [f]), Read (SRC_DIR @ [f]), Write (DST_DIR @ [f])])"

text \<open>
  The initial states from which the run ends without an exception: the source directory
  is a directory, \<open>en\<close> is absent or a directory, every listed name is absent or a text file,
  and no directory sits where a destination file is to be written.
\<close>

definition readable :: "filesystem \<Rightarrow> string \<Rightarrow> bool" where
  "readable fs f =
     (case fs (SRC_DIR @ [f]) of
        None \<Rightarrow> True
      | Some (Text c) \<Rightarrow> fs (DST_DIR @ [f]) \<noteq> Some Dir
      | Some _ \<Rightarrow> False)"

definition runs_clean :: "filesystem \<Rightarrow> bool" where
  "runs_clean fs \<longleftrightarrow>
     fs SRC_DIR = Some Dir \<and> (fs DST_DIR = None \<or> fs DST_DIR = Some Dir) \<and>
     list_all (readable fs) FILES"

text \<open>The paths whose initial content can influence a run.\<close>

definition footprint :: "path set" where
  "footprint =
     {SRC_DIR, DST_DIR} \<union> (\<lambda>f. SRC_DIR @ [f]) ` set FILES \<union> (\<lambda>f. DST_DIR @ [f]) ` set FILES"

text \<open>
  A small documentation tree: two of the nine files are present, one of them links to the
  other, and a file outside the list lies beside them.
\<close>

definition example_docs :: filesystem where
  "example_docs =
     [[] \<mapsto> Dir,
      [''OVERVIEW.md''] \<mapsto> Text (''See [FAQ](./FAQ.md).'' @ [newline]),
      [''FAQ.md''] \<mapsto> Text (''# FAQ'' @ [newline]),
      [''README.md''] \<mapsto> Text ''readme'']"

text \<open>
  A tree on which the run is cut short: \<open>QUICK_START.md\<close> is a directory, so it exists
  and cannot be opened.
\<close>

definition blocked_docs :: filesystem where
  "blocked_docs =
     [[] \<mapsto> Dir,
      [''en''] \<mapsto> Dir,
      [''OVERVIEW.md''] \<mapsto> Text ''overview'',
      [''QUICK_START.md''] \<mapsto> Dir,
      [''FAQ.md''] \<mapsto> Text ''faq'']"

text \<open>A tree whose \<open>FAQ.md\<close> ends its line with CR LF.\<close>

definition crlf_docs :: filesystem where
  "crlf_docs =
     [[] \<mapsto> Dir,
      [''FAQ.md''] \<mapsto> Text (''# FAQ'' @ [carriage_return, newline])]"

text \<open>
  What \<open>en/<name>\<close> holds once the name has been processed: the translation of the text
  read from the source when there is one, and what it held before otherwise.
\<close>

definition translated_node :: "filesystem \<Rightarrow> string \<Rightarrow> node option" where
  "translated_node fs f =
     (case fs (SRC_DIR @ [f]) of
        Some (Text c) \<Rightarrow> Some (Text (fake_translate (universal_newlines c)))
      | _ \<Rightarrow> fs (DST_DIR @ [f]))"

text \<open>The world after the \<open>mkdir\<close> and the first \<open>n\<close> turns of the loop of \<open>main\<close>.\<close>

definition after_files :: "nat \<Rightarrow> filesystem \<Rightarrow> world" where
  "after_files n fs = for_each (take n FILES) translate_file (mkdir_exist_ok DST_DIR (start fs))"

section \<open>The link-rewriting loop\<close>

lemma replace_by_itself: "new = old \<Longrightarrow> replace s old new = s"
proof (induction s old new rule: replace.induct)
  case (1 old new)
  then show ?case by simp
next
  case (2 c cs old new)
  show ?case
  proof (cases "old = []")
    case True
    with 2 show ?thesis by simp
  next
    case False
    show ?thesis
    proof (cases "prefix old (c # cs)")
      case True
      then obtain r where r: "c # cs = old @ r"
        by (auto simp: prefix_def)
      have rest: "drop (length old) (c # cs) = r"
        by (simp add: r)
      have "replace (c # cs) old new = new @ replace (drop (length old) (c # cs)) old new"
        using False True by simp
      also have "\<dots> = new @ r"
        using 2(2) [OF False True 2(4)] by (simp only: rest)
      also have "\<dots> = c # cs"
        using r 2(4) by simp
      finally show ?thesis .
    next
      case no: False
      with 2(3) [OF False no 2(4)] False show ?thesis by simp
    qed
  qed
qed

lemma replace_same: "replace s old old = s"
  by (rule replace_by_itself) simp

lemma adjust_links_noop: "adjust_links fname t = t"
proof -
  have "fold (\<lambda>f2 t. if f2 \<noteq> fname then replace t (''./'' @ f2) (''./'' @ f2) else t) fs t = t"
    for fs :: "string list"
    by (induction fs) (simp_all add: replace_same)
  then show ?thesis by (simp add: adjust_links_def)
qed

section \<open>Line endings\<close>

lemma universal_newlines_plain: "carriage_return \<notin> set s \<Longrightarrow> universal_newlines s = s"
  by (induction s rule: universal_newlines.induct) auto

lemma universal_newlines_no_cr: "carriage_return \<notin> set (universal_newlines s)"
  by (induction s rule: universal_newlines.induct) (auto simp: carriage_return_def newline_def)

lemma faq_text_plain: "universal_newlines (''# FAQ'' @ [newline]) = ''# FAQ'' @ [newline]"
  by (rule universal_newlines_plain) (simp add: carriage_return_def newline_def)

lemma overview_text_plain:
  "universal_newlines (''See [FAQ](./FAQ.md).'' @ [newline]) = ''See [FAQ](./FAQ.md).'' @ [newline]"
  by (rule universal_newlines_plain) (simp add: carriage_return_def newline_def)

lemma crlf_text_read:
  "universal_newlines (''# FAQ'' @ [carriage_return, newline]) = ''# FAQ'' @ [newline]"
  by (simp add: carriage_return_def newline_def)

section \<open>One file\<close>

lemma translate_file_unfold:
  "translate_file f w =
     (let w1 = touch (Exists [f]) w in
      case files w [f] of
        None \<Rightarrow> print (''Source file missing: '' @ f) w1
      | Some Dir \<Rightarrow> raise IsADirectoryError (touch (Read [f]) w1)
      | Some Binary \<Rightarrow> raise UnicodeDecodeError (touch (Read [f]) w1)
      | Some (Text c) \<Rightarrow>
          (let w3 = write_text [''en'', f] (MARKER @ universal_newlines c) (touch (Read [f]) w1)
           in if raised w3 = None then print (''Translated '' @ f @ '' -> en/'' @ f) w3 else w3))"
  by (simp add: translate_file_def path_exists_def read_text_def
      touch_def raise_def  SRC_DIR_def DST_DIR_def adjust_links_noop fake_translate_def Let_def
      split: option.splits node.splits)

lemma files_translate_file_frame:
  "p \<noteq> [''en'', f] \<Longrightarrow> files (translate_file f w) p = files w p"
  by (simp add: translate_file_unfold write_text_def touch_def raise_def print_def Let_def
      split: option.splits node.splits)

lemma files_translate_file_raised:
  "raised w = None \<Longrightarrow> raised (translate_file f w) \<noteq> None \<Longrightarrow> files (translate_file f w) = files w"
  by (auto simp add: translate_file_unfold write_text_def touch_def raise_def print_def Let_def
      split: option.splits node.splits if_splits)

lemma translate_file_returns_iff:
  "raised w = None \<Longrightarrow>
   raised (translate_file f w) = None \<longleftrightarrow>
     files w [f] = None \<or>
     (\<exists>c. files w [f] = Some (Text c)) \<and> files w [''en''] = Some Dir \<and> files w [''en'', f] \<noteq> Some Dir"
  by (auto simp add: translate_file_unfold write_text_def touch_def raise_def print_def Let_def
      split: option.splits node.splits if_splits)

lemma files_translate_file_text:
  "raised w = None \<Longrightarrow> raised (translate_file f w) = None \<Longrightarrow> files w [f] = Some (Text c) \<Longrightarrow>
   files (translate_file f w) = (files w)([''en'', f] \<mapsto> Text (MARKER @ universal_newlines c))"
  by (auto simp add: translate_file_unfold write_text_def touch_def raise_def print_def Let_def
      split: option.splits node.splits if_splits)

lemma files_translate_file_missing:
  "files w [f] = None \<Longrightarrow> files (translate_file f w) = files w"
  by (simp add: translate_file_unfold touch_def print_def Let_def)

section \<open>The loop over the list\<close>

lemma loop_frame:
  "\<forall>f \<in> set xs. p \<noteq> [''en'', f] \<Longrightarrow> files (for_each xs translate_file w) p = files w p"
  by (induction xs arbitrary: w) (simp_all add: Let_def files_translate_file_frame)

lemma loop_source: "files (for_each xs translate_file w) [f] = files w [f]"
  by (rule loop_frame) simp

lemma loop_dst_dir: "files (for_each xs translate_file w) [''en''] = files w [''en'']"
  by (rule loop_frame) simp

lemma loop_written:
  "raised w = None \<Longrightarrow> raised (for_each xs translate_file w) = None \<Longrightarrow> f \<in> set xs \<Longrightarrow>
   files w [f] = Some (Text c) \<Longrightarrow>
   files (for_each xs translate_file w) [''en'', f] = Some (Text (MARKER @ universal_newlines c))"
proof (induction xs arbitrary: w)
  case Nil
  then show ?case by simp
next
  case (Cons x xs)
  let ?w = "translate_file x w"
  from Cons.prems(2) have ok: "raised ?w = None" and fin: "raised (for_each xs translate_file ?w) = None"
    by (auto simp: Let_def split: if_splits)
  have src: "files ?w [f] = Some (Text c)"
    using Cons.prems(4) by (simp add: files_translate_file_frame)
  show ?case
  proof (cases "f \<in> set xs")
    case True
    from Cons.IH [OF ok fin True src] ok show ?thesis by (simp add: Let_def)
  next
    case False
    with Cons.prems(3) have fx: "x = f" by simp
    have "files (for_each xs translate_file ?w) [''en'', f] = files ?w [''en'', f]"
      using False by (intro loop_frame) auto
    also have "\<dots> = Some (Text (MARKER @ universal_newlines c))"
      using files_translate_file_text [OF Cons.prems(1) ok, of c] Cons.prems(4) fx by simp
    finally show ?thesis using ok by (simp add: Let_def)
  qed
qed

lemma loop_text:
  "raised w = None \<Longrightarrow> raised (for_each xs translate_file w) = None \<Longrightarrow> f \<in> set xs \<Longrightarrow>
   files w [f] \<noteq> None \<Longrightarrow> \<exists>c. files w [f] = Some (Text c)"
proof (induction xs arbitrary: w)
  case Nil
  then show ?case by simp
next
  case (Cons x xs)
  let ?w = "translate_file x w"
  from Cons.prems(2) have ok: "raised ?w = None" and fin: "raised (for_each xs translate_file ?w) = None"
    by (auto simp: Let_def split: if_splits)
  show ?case
  proof (cases "x = f")
    case True
    with ok Cons.prems(1,4) show ?thesis by (auto simp: translate_file_returns_iff)
  next
    case False
    with Cons.prems(3) have "f \<in> set xs" by simp
    from Cons.IH [OF ok fin this] Cons.prems(4) show ?thesis
      by (simp add: files_translate_file_frame)
  qed
qed

lemma stdout_translate_file:
  "raised w = None \<Longrightarrow> raised (translate_file f w) = None \<Longrightarrow>
   stdout (translate_file f w) = stdout w @ [notice (files w) f]"
  by (auto simp add: translate_file_unfold notice_def SRC_DIR_def DST_DIR_def write_text_def touch_def raise_def print_def Let_def
      split: option.splits node.splits if_splits)

lemma log_translate_file:
  "raised w = None \<Longrightarrow> raised (translate_file f w) = None \<Longrightarrow>
   log (translate_file f w) = log w @ accesses (files w) f"
  by (auto simp add: translate_file_unfold accesses_def SRC_DIR_def DST_DIR_def write_text_def touch_def raise_def print_def Let_def
      split: option.splits node.splits if_splits)

lemma notice_cong: "fs [f] = fs' [f] \<Longrightarrow> notice fs f = notice fs' f"
  by (simp add: notice_def SRC_DIR_def DST_DIR_def)

lemma accesses_cong: "fs [f] = fs' [f] \<Longrightarrow> accesses fs f = accesses fs' f"
  by (simp add: accesses_def SRC_DIR_def DST_DIR_def)

lemma loop_stdout:
  "raised w = None \<Longrightarrow> raised (for_each xs translate_file w) = None \<Longrightarrow>
   stdout (for_each xs translate_file w) = stdout w @ map (notice (files w)) xs"
proof (induction xs arbitrary: w)
  case Nil
  then show ?case by simp
next
  case (Cons x xs)
  let ?w = "translate_file x w"
  from Cons.prems(2) have ok: "raised ?w = None" and fin: "raised (for_each xs translate_file ?w) = None"
    by (auto simp: Let_def split: if_splits)
  have same: "map (notice (files ?w)) xs = map (notice (files w)) xs"
    by (intro map_cong refl notice_cong) (simp add: files_translate_file_frame)
  from Cons.IH [OF ok fin] ok show ?case
    by (simp add: Let_def same stdout_translate_file [OF Cons.prems(1) ok])
qed

lemma loop_log:
  "raised w = None \<Longrightarrow> raised (for_each xs translate_file w) = None \<Longrightarrow>
   log (for_each xs translate_file w) = log w @ concat (map (accesses (files w)) xs)"
proof (induction xs arbitrary: w)
  case Nil
  then show ?case by simp
next
  case (Cons x xs)
  let ?w = "translate_file x w"
  from Cons.prems(2) have ok: "raised ?w = None" and fin: "raised (for_each xs translate_file ?w) = None"
    by (auto simp: Let_def split: if_splits)
  have same: "map (accesses (files ?w)) xs = map (accesses (files w)) xs"
    by (intro map_cong refl accesses_cong) (simp add: files_translate_file_frame)
  from Cons.IH [OF ok fin] ok show ?case
    by (simp add: Let_def same log_translate_file [OF Cons.prems(1) ok])
qed

lemmas tf_simps = translate_file_unfold write_text_def touch_def raise_def print_def Let_def

lemma for_each_continues:
  "raised (body x w) = None \<Longrightarrow> for_each (x # xs) body w = for_each xs body (body x w)"
  by (simp add: Let_def)

lemma for_each_stops:
  "raised (body x w) \<noteq> None \<Longrightarrow> for_each (x # xs) body w = body x w"
  by (cases "raised (body x w)") (simp_all add: Let_def)

lemma translate_file_depends:
  assumes "raised w = raised v" "files w [f] = files v [f]" "files w [''en''] = files v [''en'']"
    "files w [''en'', f] = files v [''en'', f]"
  shows "raised (translate_file f w) = raised (translate_file f v)"
    and "stdout w = stdout v \<Longrightarrow> stdout (translate_file f w) = stdout (translate_file f v)"
    and "log w = log v \<Longrightarrow> log (translate_file f w) = log (translate_file f v)"
    and "files w p = files v p \<Longrightarrow> files (translate_file f w) p = files (translate_file f v) p"
  using assms
  by (auto simp add: tf_simps split: option.splits node.splits if_splits)

lemma loop_depends:
  assumes "raised w = raised v" "stdout w = stdout v" "log w = log v"
    "files w [''en''] = files v [''en'']"
    "\<forall>f \<in> set xs. files w [f] = files v [f] \<and> files w [''en'', f] = files v [''en'', f]"
  shows "raised (for_each xs translate_file w) = raised (for_each xs translate_file v) \<and>
         stdout (for_each xs translate_file w) = stdout (for_each xs translate_file v) \<and>
         log (for_each xs translate_file w) = log (for_each xs translate_file v) \<and>
         (\<forall>p. files w p = files v p \<longrightarrow>
              files (for_each xs translate_file w) p = files (for_each xs translate_file v) p)"
  using assms
proof (induction xs arbitrary: w v)
  case Nil
  then show ?case by simp
next
  case (Cons x xs)
  let ?w = "translate_file x w" and ?v = "translate_file x v"
  have x: "files w [x] = files v [x]" "files w [''en'', x] = files v [''en'', x]"
    using Cons.prems(5) by simp_all
  note dep = translate_file_depends [OF Cons.prems(1) x(1) Cons.prems(4) x(2)]
  have r: "raised ?w = raised ?v" by (rule dep(1))
  have s: "stdout ?w = stdout ?v" by (rule dep(2)) (rule Cons.prems(2))
  have l: "log ?w = log ?v" by (rule dep(3)) (rule Cons.prems(3))
  have f: "files w p = files v p \<Longrightarrow> files ?w p = files ?v p" for p by (rule dep(4))
  have d: "files ?w [''en''] = files ?v [''en'']" by (rule f) (rule Cons.prems(4))
  have rest: "\<forall>f \<in> set xs. files ?w [f] = files ?v [f] \<and> files ?w [''en'', f] = files ?v [''en'', f]"
    using Cons.prems(5) f by simp
  show ?case
  proof (cases "raised ?w = None")
    case True
    with r have "raised ?v = None" by simp
    with True Cons.IH [OF r s l d rest] f show ?thesis
      by (simp only: for_each_continues) blast
  next
    case False
    with r have "raised ?v \<noteq> None" by simp
    with False r s l f show ?thesis
      by (simp only: for_each_stops) blast
  qed
qed

lemma loop_idem:
  assumes "distinct xs" "raised w = None" "raised v = None"
    "files v = files (for_each xs translate_file w)"
  shows "files (for_each xs translate_file v) = files v \<and>
         raised (for_each xs translate_file v) = raised (for_each xs translate_file w)"
  using assms
proof (induction xs arbitrary: w v)
  case Nil
  then show ?case by simp
next
  case (Cons x xs)
  let ?w = "translate_file x w" and ?v = "translate_file x v"
  from Cons.prems(1) have nx: "x \<notin> set xs" and dxs: "distinct xs" by simp_all
  show ?case
  proof (cases "raised ?w = None")
    case False
    then have stopw: "for_each (x # xs) translate_file w = ?w"
      by (rule for_each_stops)
    have "files v = files ?w"
      using Cons.prems(4) by (simp only: stopw)
    also have "\<dots> = files w"
      by (rule files_translate_file_raised [OF Cons.prems(2) False])
    finally have "files v = files w" .
    then have same: "raised ?v = raised ?w"
      using translate_file_depends(1) [of v w x] Cons.prems(2,3) by simp
    with False have stop: "raised ?v \<noteq> None" by simp
    then have "files ?v = files v"
      by (rule files_translate_file_raised [OF Cons.prems(3)])
    with False stop same show ?thesis by (simp only: for_each_stops)
  next
    case True
    let ?G = "files (for_each xs translate_file ?w)"
    have G: "files v = ?G" using Cons.prems(4) True by (simp only: for_each_continues)
    have Gsrc: "files v [x] = files w [x]"
      by (simp add: G loop_source files_translate_file_frame)
    have Gen: "files v [''en''] = files w [''en'']"
      by (simp add: G loop_dst_dir files_translate_file_frame)
    have Gdst: "files v [''en'', x] = files ?w [''en'', x]"
      unfolding G using nx by (intro loop_frame) auto
    have step: "raised ?v = None \<and> files ?v = files v"
    proof (cases "files w [x]")
      case None
      then show ?thesis
        using Gsrc Cons.prems(3) by (simp add: translate_file_returns_iff files_translate_file_missing)
    next
      case (Some n)
      with True Cons.prems(2) obtain c where c: "files w [x] = Some (Text c)"
        and en: "files w [''en''] = Some Dir"
        by (auto simp: translate_file_returns_iff)
      have "files ?w [''en'', x] = Some (Text (MARKER @ universal_newlines c))"
        using files_translate_file_text [OF Cons.prems(2) True c] by simp
      with Gdst have dst: "files v [''en'', x] = Some (Text (MARKER @ universal_newlines c))" by simp
      have ok: "raised ?v = None"
        using Cons.prems(3) c en dst Gsrc Gen by (simp add: translate_file_returns_iff)
      have "files ?v = (files v)([''en'', x] \<mapsto> Text (MARKER @ universal_newlines c))"
        using files_translate_file_text [OF Cons.prems(3) ok, of c] c Gsrc by simp
      also have "\<dots> = files v" using dst by (simp add: fun_upd_idem)
      finally show ?thesis using ok by simp
    qed
    then have okv: "raised ?v = None" and fv: "files ?v = ?G" using G by simp_all
    from Cons.IH [OF dxs True okv fv] True okv fv G show ?thesis
      by (simp only: for_each_continues)
  qed
qed

lemma stdout_translate_file_raised:
  "raised w = None \<Longrightarrow> raised (translate_file f w) \<noteq> None \<Longrightarrow>
   stdout (translate_file f w) = stdout w"
  by (auto simp add: tf_simps split: option.splits node.splits if_splits)

lemma log_translate_file_subset:
  "set (log (translate_file f w)) \<subseteq> set (log w) \<union> {Exists [f], Read [f], Write [''en'', f]}"
  by (auto simp add: tf_simps split: option.splits node.splits if_splits)

lemma loop_log_subset:
  "set (log (for_each xs translate_file w)) \<subseteq>
     set (log w) \<union> (\<Union>f \<in> set xs. {Exists [f], Read [f], Write [''en'', f]})"
proof (induction xs arbitrary: w)
  case Nil
  then show ?case by simp
next
  case (Cons x xs)
  let ?w = "translate_file x w"
  show ?case
  proof (cases "raised ?w = None")
    case True
    have "set (log (for_each xs translate_file ?w)) \<subseteq>
        set (log ?w) \<union> (\<Union>f \<in> set xs. {Exists [f], Read [f], Write [''en'', f]})"
      by (rule Cons.IH)
    with log_translate_file_subset [of x w] show ?thesis
      unfolding for_each_continues [of translate_file, OF True] by auto
  next
    case False
    with log_translate_file_subset [of x w] show ?thesis
      unfolding for_each_stops [of translate_file, OF False] by auto
  qed
qed

lemma loop_stdout_prefix:
  "raised w = None \<Longrightarrow>
   prefix (stdout (for_each xs translate_file w)) (stdout w @ map (notice (files w)) xs)"
proof (induction xs arbitrary: w)
  case Nil
  then show ?case by simp
next
  case (Cons x xs)
  let ?w = "translate_file x w"
  show ?case
  proof (cases "raised ?w = None")
    case True
    have same: "map (notice (files ?w)) xs = map (notice (files w)) xs"
      by (intro map_cong refl notice_cong) (simp add: files_translate_file_frame)
    from Cons.IH [OF True] show ?thesis
      unfolding for_each_continues [of translate_file, OF True]
      by (simp add: same stdout_translate_file [OF Cons.prems True])
  next
    case False
    show ?thesis
      unfolding for_each_stops [of translate_file, OF False]
      by (simp add: stdout_translate_file_raised [OF Cons.prems False])
  qed
qed

lemma readable_step:
  "raised w = None \<Longrightarrow> raised (translate_file x w) = None \<Longrightarrow>
   readable (files (translate_file x w)) f = readable (files w) f"
  by (auto simp add: readable_def SRC_DIR_def DST_DIR_def tf_simps split: option.splits node.splits if_splits)

lemma loop_returns_iff:
  "raised w = None \<Longrightarrow> files w [''en''] = Some Dir \<Longrightarrow>
   raised (for_each xs translate_file w) = None \<longleftrightarrow> list_all (readable (files w)) xs"
proof (induction xs arbitrary: w)
  case Nil
  then show ?case by simp
next
  case (Cons x xs)
  let ?w = "translate_file x w"
  have step: "raised ?w = None \<longleftrightarrow> readable (files w) x"
    using Cons.prems
    by (auto simp add: translate_file_returns_iff readable_def SRC_DIR_def DST_DIR_def split: option.splits node.splits)
  show ?case
  proof (cases "raised ?w = None")
    case True
    have en: "files ?w [''en''] = Some Dir"
      using Cons.prems(2) by (simp add: files_translate_file_frame)
    have "list_all (readable (files ?w)) xs = list_all (readable (files w)) xs"
      by (simp add: list_all_iff readable_step [OF Cons.prems(1) True])
    with Cons.IH [OF True en] True step show ?thesis
      unfolding for_each_continues [of translate_file, OF True] by simp
  next
    case False
    with step show ?thesis
      unfolding for_each_stops [of translate_file, OF False] by simp
  qed
qed

section \<open>The whole run\<close>

lemma mkdir_simps:
  "files (mkdir_exist_ok DST_DIR (start fs)) =
     (if fs [] = Some Dir \<and> fs [''en''] = None then fs([''en''] \<mapsto> Dir) else fs)"
  "stdout (mkdir_exist_ok DST_DIR (start fs)) = []"
  "log (mkdir_exist_ok DST_DIR (start fs)) = [Mkdir [''en'']]"
  "raised (mkdir_exist_ok DST_DIR (start fs)) = None \<longleftrightarrow>
     fs [] = Some Dir \<and> (fs [''en''] = None \<or> fs [''en''] = Some Dir)"
  by (auto simp add: mkdir_exist_ok_def start_def DST_DIR_def SRC_DIR_def touch_def raise_def Let_def
      split: option.splits node.splits)

lemma main_returns:
  assumes "raised (main fs) = None"
  shows "raised (mkdir_exist_ok DST_DIR (start fs)) = None"
    and "main fs = for_each FILES translate_file (mkdir_exist_ok DST_DIR (start fs))"
    and "fs [] = Some Dir"
    and "files (mkdir_exist_ok DST_DIR (start fs)) [''en''] = Some Dir"
proof -
  show 1: "raised (mkdir_exist_ok DST_DIR (start fs)) = None"
    using assms by (auto simp: main_def Let_def split: if_splits)
  then show "main fs = for_each FILES translate_file (mkdir_exist_ok DST_DIR (start fs))"
    by (simp add: main_def Let_def)
  from 1 show "fs [] = Some Dir" by (simp add: mkdir_simps)
  from 1 show "files (mkdir_exist_ok DST_DIR (start fs)) [''en''] = Some Dir"
    by (auto simp add: mkdir_simps)
qed

lemma main_stops:
  assumes "raised (mkdir_exist_ok DST_DIR (start fs)) \<noteq> None"
  shows "main fs = mkdir_exist_ok DST_DIR (start fs)" and "files (main fs) = fs"
proof -
  show 1: "main fs = mkdir_exist_ok DST_DIR (start fs)"
    using assms by (auto simp: main_def Let_def)
  from assms show "files (main fs) = fs"
    unfolding 1 by (auto simp add: mkdir_simps)
qed

lemma main_continues:
  assumes "raised (mkdir_exist_ok DST_DIR (start fs)) = None"
  shows "main fs = for_each FILES translate_file (mkdir_exist_ok DST_DIR (start fs))"
  using assms by (simp add: main_def Let_def)

lemma en_not_in_FILES: "''en'' \<notin> set FILES"
  by (simp add: FILES_def)

lemma main_returns_iff: "raised (main fs) = None \<longleftrightarrow> runs_clean fs"
proof (cases "raised (mkdir_exist_ok DST_DIR (start fs)) = None")
  case True
  then have dir: "files (mkdir_exist_ok DST_DIR (start fs)) [''en''] = Some Dir"
    by (auto simp add: mkdir_simps)
  have "readable (files (mkdir_exist_ok DST_DIR (start fs))) f = readable fs f"
    if "f \<in> set FILES" for f
  proof -
    from that en_not_in_FILES have "f \<noteq> ''en''" by auto
    then have a: "files (mkdir_exist_ok DST_DIR (start fs)) [f] = fs [f]"
      and b: "files (mkdir_exist_ok DST_DIR (start fs)) [''en'', f] = fs [''en'', f]"
      by (simp_all add: mkdir_simps)
    have src: "files (mkdir_exist_ok DST_DIR (start fs)) (SRC_DIR @ [f]) = fs (SRC_DIR @ [f])"
      using a by (simp add: SRC_DIR_def)
    have dst: "files (mkdir_exist_ok DST_DIR (start fs)) (DST_DIR @ [f]) = fs (DST_DIR @ [f])"
      using b by (simp add: SRC_DIR_def DST_DIR_def)
    show ?thesis
      by (simp only: readable_def src dst)
  qed
  then have "list_all (readable (files (mkdir_exist_ok DST_DIR (start fs)))) FILES
      = list_all (readable fs) FILES"
    by (simp add: list_all_iff)
  moreover from True have "fs [] = Some Dir \<and> (fs [''en''] = None \<or> fs [''en''] = Some Dir)"
    by (simp add: mkdir_simps)
  then have "fs SRC_DIR = Some Dir \<and> (fs DST_DIR = None \<or> fs DST_DIR = Some Dir)"
    by (simp add: SRC_DIR_def DST_DIR_def)
  ultimately show ?thesis
    using loop_returns_iff [OF True dir, of FILES]
    by (simp add: main_continues [OF True] runs_clean_def)
next
  case False
  then have "\<not> (fs [] = Some Dir \<and> (fs [''en''] = None \<or> fs [''en''] = Some Dir))"
    by (simp only: mkdir_simps) simp
  then have "\<not> runs_clean fs"
    by (auto simp: runs_clean_def SRC_DIR_def DST_DIR_def)
  moreover have "raised (main fs) \<noteq> None"
    using False by (simp only: main_stops(1) [OF False]) simp
  ultimately show ?thesis by simp
qed

lemma main_frame:
  assumes "p \<noteq> [''en'']" "\<forall>f \<in> set FILES. p \<noteq> [''en'', f]"
  shows "files (main fs) p = fs p"
proof (cases "raised (mkdir_exist_ok DST_DIR (start fs)) = None")
  case True
  show ?thesis
    unfolding main_continues [OF True] using assms
    by (simp add: loop_frame mkdir_simps)
next
  case False
  from main_stops(2) [OF False] show ?thesis by simp
qed

section \<open>Results of a whole run\<close>

lemma example_docs_runs_clean: "raised (main example_docs) = None"
  unfolding main_returns_iff
  by (simp add: runs_clean_def readable_def FILES_def example_docs_def SRC_DIR_def DST_DIR_def)

lemma main_written:
  assumes "raised (main fs) = None" "f \<in> set FILES" "fs [f] = Some (Text c)"
  shows "files (main fs) [''en'', f] = Some (Text (MARKER @ universal_newlines c))"
proof -
  let ?w = "mkdir_exist_ok DST_DIR (start fs)"
  note r = main_returns [OF assms(1)]
  from assms(2) en_not_in_FILES have "f \<noteq> ''en''" by auto
  then have src: "files ?w [f] = Some (Text c)"
    using assms(3) by (simp add: mkdir_simps)
  from assms(1) have fin: "raised (for_each FILES translate_file ?w) = None"
    by (simp only: r(2) [symmetric])
  from loop_written [OF r(1) fin assms(2) src] show ?thesis
    by (simp only: r(2) [symmetric])
qed

lemma main_text:
  assumes "raised (main fs) = None" "f \<in> set FILES" "fs [f] \<noteq> None"
  shows "\<exists>c. fs [f] = Some (Text c)"
proof -
  let ?w = "mkdir_exist_ok DST_DIR (start fs)"
  note r = main_returns [OF assms(1)]
  from assms(2) en_not_in_FILES have "f \<noteq> ''en''" by auto
  then have same: "files ?w [f] = fs [f]"
    by (simp add: mkdir_simps)
  from assms(1) have fin: "raised (for_each FILES translate_file ?w) = None"
    by (simp only: r(2) [symmetric])
  from loop_text [OF r(1) fin assms(2)] assms(3) same show ?thesis
    by simp
qed

lemma loop_missing_untouched:
  "files w [f] = None \<Longrightarrow>
   files (for_each xs translate_file w) [''en'', f] = files w [''en'', f]"
proof (induction xs arbitrary: w)
  case Nil
  then show ?case by simp
next
  case (Cons x xs)
  let ?w = "translate_file x w"
  have src: "files ?w [f] = None"
    using Cons.prems by (simp add: files_translate_file_frame)
  have dst: "files ?w [''en'', f] = files w [''en'', f]"
  proof (cases "x = f")
    case True
    with Cons.prems show ?thesis by (simp add: files_translate_file_missing)
  next
    case False
    then show ?thesis by (simp add: files_translate_file_frame)
  qed
  show ?case
  proof (cases "raised ?w = None")
    case True
    from Cons.IH [OF src] dst show ?thesis
      unfolding for_each_continues [of translate_file, OF True] by simp
  next
    case False
    from dst show ?thesis
      unfolding for_each_stops [of translate_file, OF False] .
  qed
qed

lemma main_missing_untouched:
  assumes "f \<in> set FILES" "fs [f] = None"
  shows "files (main fs) [''en'', f] = fs [''en'', f]"
proof (cases "raised (mkdir_exist_ok DST_DIR (start fs)) = None")
  case True
  from assms(1) en_not_in_FILES have "f \<noteq> ''en''" by auto
  then have "files (mkdir_exist_ok DST_DIR (start fs)) [f] = None"
    using assms(2) by (simp add: mkdir_simps)
  from loop_missing_untouched [OF this, of FILES] show ?thesis
    unfolding main_continues [OF True] by (simp add: mkdir_simps)
next
  case False
  from main_stops(2) [OF False] show ?thesis by simp
qed

lemma main_stdout:
  assumes "raised (main fs) = None"
  shows "stdout (main fs) = map (notice fs) FILES"
proof -
  let ?w = "mkdir_exist_ok DST_DIR (start fs)"
  note r = main_returns [OF assms]
  from assms have fin: "raised (for_each FILES translate_file ?w) = None"
    by (simp only: r(2) [symmetric])
  have "notice (files ?w) f = notice fs f" if "f \<in> set FILES" for f
  proof -
    from that en_not_in_FILES have "f \<noteq> ''en''" by auto
    then show ?thesis by (intro notice_cong) (simp add: mkdir_simps)
  qed
  then have same: "map (notice (files ?w)) FILES = map (notice fs) FILES"
    by simp
  have "stdout (main fs) = stdout ?w @ map (notice (files ?w)) FILES"
    unfolding r(2) by (rule loop_stdout [OF r(1) fin])
  then show ?thesis
    unfolding same by (simp add: mkdir_simps(2))
qed

lemma main_log:
  assumes "raised (main fs) = None"
  shows "log (main fs) = Mkdir DST_DIR # concat (map (accesses fs) FILES)"
proof -
  let ?w = "mkdir_exist_ok DST_DIR (start fs)"
  note r = main_returns [OF assms]
  from assms have fin: "raised (for_each FILES translate_file ?w) = None"
    by (simp only: r(2) [symmetric])
  have "accesses (files ?w) f = accesses fs f" if "f \<in> set FILES" for f
  proof -
    from that en_not_in_FILES have "f \<noteq> ''en''" by auto
    then show ?thesis by (intro accesses_cong) (simp add: mkdir_simps)
  qed
  then have same: "map (accesses (files ?w)) FILES = map (accesses fs) FILES"
    by simp
  have first: "log ?w = [Mkdir DST_DIR]"
    unfolding mkdir_simps by (simp add: DST_DIR_def SRC_DIR_def)
  have "log (main fs) = log ?w @ concat (map (accesses (files ?w)) FILES)"
    unfolding r(2) by (rule loop_log [OF r(1) fin])
  then show ?thesis
    unfolding same first by simp
qed

lemma distinct_FILES: "distinct FILES"
  by (simp add: FILES_def)

lemma main_idem:
  "files (main (files (main fs))) = files (main fs) \<and>
   raised (main (files (main fs))) = raised (main fs)"
proof (cases "raised (mkdir_exist_ok DST_DIR (start fs)) = None")
  case False
  from main_stops(2) [OF False] show ?thesis by simp
next
  case True
  let ?w = "mkdir_exist_ok DST_DIR (start fs)"
  let ?G = "files (main fs)"
  let ?v = "mkdir_exist_ok DST_DIR (start ?G)"
  have m: "main fs = for_each FILES translate_file ?w"
    by (rule main_continues [OF True])
  from True have "fs [] = Some Dir" by (simp add: mkdir_simps)
  then have root: "?G [] = Some Dir"
    by (simp add: main_frame)
  from True have "files ?w [''en''] = Some Dir"
    by (auto simp add: mkdir_simps)
  then have en: "?G [''en''] = Some Dir"
    unfolding m by (simp add: loop_dst_dir)
  from root en have okv: "raised ?v = None"
    by (simp add: mkdir_simps)
  from en have fv: "files ?v = files (for_each FILES translate_file ?w)"
    by (simp add: mkdir_simps m)
  from loop_idem [OF distinct_FILES True okv fv]
  have "files (for_each FILES translate_file ?v) = files ?v"
    and "raised (for_each FILES translate_file ?v) = raised (for_each FILES translate_file ?w)"
    by simp_all
  then show ?thesis
    unfolding main_continues [OF okv] fv m [symmetric] by simp
qed

lemma main_log_subset:
  "set (log (main fs)) \<subseteq>
     {Mkdir [''en'']} \<union> (\<Union>f \<in> set FILES. {Exists [f], Read [f], Write [''en'', f]})"
proof (cases "raised (mkdir_exist_ok DST_DIR (start fs)) = None")
  case True
  from loop_log_subset [of FILES "mkdir_exist_ok DST_DIR (start fs)"] show ?thesis
    unfolding main_continues [OF True] mkdir_simps by simp
next
  case False
  show ?thesis
    unfolding main_stops(1) [OF False] mkdir_simps by simp
qed

lemma main_creates_dst_dir:
  assumes "fs [] = Some Dir" "fs [''en''] = None"
  shows "files (main fs) [''en''] = Some Dir"
proof -
  from assms have ok: "raised (mkdir_exist_ok DST_DIR (start fs)) = None"
    by (simp add: mkdir_simps)
  from assms show ?thesis
    unfolding main_continues [OF ok] by (simp add: loop_dst_dir mkdir_simps)
qed

lemma main_keeps_dst_dir:
  assumes "fs [''en''] \<noteq> None"
  shows "files (main fs) [''en''] = fs [''en'']"
proof (cases "raised (mkdir_exist_ok DST_DIR (start fs)) = None")
  case True
  from assms show ?thesis
    unfolding main_continues [OF True] by (simp add: loop_dst_dir mkdir_simps)
next
  case False
  from main_stops(2) [OF False] show ?thesis by simp
qed

lemma main_stdout_prefix: "prefix (stdout (main fs)) (map (notice fs) FILES)"
proof (cases "raised (mkdir_exist_ok DST_DIR (start fs)) = None")
  case True
  let ?w = "mkdir_exist_ok DST_DIR (start fs)"
  have "notice (files ?w) f = notice fs f" if "f \<in> set FILES" for f
  proof -
    from that en_not_in_FILES have "f \<noteq> ''en''" by auto
    then show ?thesis by (intro notice_cong) (simp add: mkdir_simps)
  qed
  then have same: "map (notice (files ?w)) FILES = map (notice fs) FILES"
    by simp
  have "prefix (stdout (main fs)) (stdout ?w @ map (notice (files ?w)) FILES)"
    unfolding main_continues [OF True] by (rule loop_stdout_prefix [OF True])
  then show ?thesis
    unfolding same by (simp add: mkdir_simps(2))
next
  case False
  show ?thesis
    unfolding main_stops(1) [OF False] by (simp add: mkdir_simps(2))
qed

lemma mkdir_depends:
  "fs1 [] = fs2 [] \<Longrightarrow> fs1 [''en''] = fs2 [''en''] \<Longrightarrow>
   raised (mkdir_exist_ok DST_DIR (start fs1)) = raised (mkdir_exist_ok DST_DIR (start fs2))"
  by (simp add: mkdir_exist_ok_def start_def DST_DIR_def SRC_DIR_def touch_def raise_def Let_def
      split: option.splits node.splits)

lemma main_depends:
  assumes root: "fs1 [] = fs2 []" and en: "fs1 [''en''] = fs2 [''en'']"
    and each: "\<forall>f \<in> set FILES. fs1 [f] = fs2 [f] \<and> fs1 [''en'', f] = fs2 [''en'', f]"
  shows "raised (main fs1) = raised (main fs2)"
    and "stdout (main fs1) = stdout (main fs2)"
    and "log (main fs1) = log (main fs2)"
    and "\<forall>f \<in> set FILES. files (main fs1) [''en'', f] = files (main fs2) [''en'', f]"
proof -
  let ?w = "mkdir_exist_ok DST_DIR (start fs1)" and ?v = "mkdir_exist_ok DST_DIR (start fs2)"
  have r: "raised ?w = raised ?v" by (rule mkdir_depends [OF root en])
  have s: "stdout ?w = stdout ?v" and l: "log ?w = log ?v"
    by (simp_all add: mkdir_simps)
  have f: "files ?w p = files ?v p" if "fs1 p = fs2 p" for p
    using that root en by (simp add: mkdir_simps)
  have d: "files ?w [''en''] = files ?v [''en'']" by (rule f) (rule en)
  from each f
  have rest: "\<forall>f \<in> set FILES. files ?w [f] = files ?v [f] \<and> files ?w [''en'', f] = files ?v [''en'', f]"
    by simp
  have all: "raised (main fs1) = raised (main fs2) \<and> stdout (main fs1) = stdout (main fs2) \<and>
      log (main fs1) = log (main fs2) \<and>
      (\<forall>f \<in> set FILES. files (main fs1) [''en'', f] = files (main fs2) [''en'', f])"
  proof (cases "raised ?w = None")
    case True
    with r have okv: "raised ?v = None" by simp
    from loop_depends [OF r s l d rest] rest show ?thesis
      unfolding main_continues [OF True] main_continues [OF okv] by blast
  next
    case False
    with r have stopv: "raised ?v \<noteq> None" by simp
    from r s l rest show ?thesis
      unfolding main_stops(1) [OF False] main_stops(1) [OF stopv] by blast
  qed
  then show "raised (main fs1) = raised (main fs2)"
    and "stdout (main fs1) = stdout (main fs2)"
    and "log (main fs1) = log (main fs2)"
    and "\<forall>f \<in> set FILES. files (main fs1) [''en'', f] = files (main fs2) [''en'', f]"
    by simp_all
qed

lemma example_docs_log:
  "log (main example_docs) =
     [Mkdir [''en''],
      Exists [''OVERVIEW.md''], Read [''OVERVIEW.md''], Write [''en'', ''OVERVIEW.md''],
      Exists [''QUICK_START.md''],
      Exists [''FRONTEND_INTEGRATION.md''],
      Exists [''INTERMEDIATE_GUIDE.md''],
      Exists [''EXPERT_GUIDE.md''],
      Exists [''MIGRATION_V1_V2.md''],
      Exists [''IMPLEMENTATION_NOTES.md''],
      Exists [''FAQ.md''], Read [''FAQ.md''], Write [''en'', ''FAQ.md''],
      Exists [''CONTRIBUTING.md'']]"
  unfolding main_log [OF example_docs_runs_clean]
  by (simp add: FILES_def accesses_def example_docs_def SRC_DIR_def DST_DIR_def)

lemma blocked_docs_raises:
  "raised (main blocked_docs) = Some IsADirectoryError"
  "stdout (main blocked_docs) = [''Translated OVERVIEW.md -> en/OVERVIEW.md'']"
  "files (main blocked_docs) [''en'', ''OVERVIEW.md''] = Some (Text (MARKER @ ''overview''))"
  "files (main blocked_docs) [''en'', ''FAQ.md''] = None"
  by (simp_all add: main_def mkdir_exist_ok_def start_def FILES_def tf_simps blocked_docs_def
      DST_DIR_def SRC_DIR_def carriage_return_def newline_def)

lemma en_is_a_file:
  "raised (main [[] \<mapsto> Dir, [''en''] \<mapsto> Text ''x'']) = Some FileExistsError"
  by (simp add: main_def mkdir_exist_ok_def start_def touch_def raise_def DST_DIR_def SRC_DIR_def)

section \<open>The run, turn by turn\<close>

lemma for_each_append:
  "raised (for_each xs body w) = None \<Longrightarrow>
   for_each (xs @ ys) body w = for_each ys body (for_each xs body w)"
proof (induction xs arbitrary: w)
  case Nil
  then show ?case by simp
next
  case (Cons x xs)
  have ok: "raised (body x w) = None"
  proof (rule ccontr)
    assume stop: "raised (body x w) \<noteq> None"
    with Cons.prems show False
      by (simp only: for_each_stops [of body x w xs, OF stop])
  qed
  from Cons.prems have "raised (for_each xs body (body x w)) = None"
    by (simp only: for_each_continues [of body x w xs, OF ok])
  from Cons.IH [OF this] show ?case
    by (simp only: append_Cons for_each_continues [of body x w, OF ok])
qed

lemma for_each_prefix_returns:
  "raised w = None \<Longrightarrow> raised (for_each (xs @ ys) body w) = None \<Longrightarrow>
   raised (for_each xs body w) = None"
proof (induction xs arbitrary: w)
  case Nil
  then show ?case by simp
next
  case (Cons x xs)
  have ok: "raised (body x w) = None"
  proof (rule ccontr)
    assume stop: "raised (body x w) \<noteq> None"
    with Cons.prems(2) show False
      by (simp only: append_Cons for_each_stops [of body x w, OF stop])
  qed
  from Cons.prems(2) have "raised (for_each (xs @ ys) body (body x w)) = None"
    by (simp only: append_Cons for_each_continues [of body x w, OF ok])
  from Cons.IH [OF ok this] show ?case
    by (simp only: for_each_continues [of body x w xs, OF ok])
qed

lemma nth_not_in_take:
  "distinct xs \<Longrightarrow> i < length xs \<Longrightarrow> \<not> i < n \<Longrightarrow> xs ! i \<notin> set (take n xs)"
  by (auto simp: in_set_conv_nth nth_eq_iff_index_eq)

lemma after_files_run:
  assumes ok: "raised (main fs) = None" and n: "n \<le> length FILES"
  shows "raised (after_files n fs) = None"
    and "main fs = for_each (drop n FILES) translate_file (after_files n fs)"
    and "stdout (after_files n fs) = map (notice fs) (take n FILES)"
    and "log (after_files n fs) = Mkdir DST_DIR # concat (map (accesses fs) (take n FILES))"
    and "\<forall>i < length FILES. files (after_files n fs) (DST_DIR @ [FILES ! i]) =
           (if i < n then translated_node fs (FILES ! i) else fs (DST_DIR @ [FILES ! i]))"
proof -
  let ?w = "mkdir_exist_ok DST_DIR (start fs)"
  note r = main_returns [OF ok]
  from ok have "raised (for_each (take n FILES @ drop n FILES) translate_file ?w) = None"
    by (simp only: r(2) [symmetric] append_take_drop_id)
  from for_each_prefix_returns [OF r(1) this]
  show part: "raised (after_files n fs) = None"
    by (simp only: after_files_def)
  then have part': "raised (for_each (take n FILES) translate_file ?w) = None"
    by (simp only: after_files_def)
  have "main fs = for_each (take n FILES @ drop n FILES) translate_file ?w"
    by (simp only: r(2) append_take_drop_id)
  also have "\<dots> = for_each (drop n FILES) translate_file (for_each (take n FILES) translate_file ?w)"
    by (rule for_each_append [OF part'])
  finally show "main fs = for_each (drop n FILES) translate_file (after_files n fs)"
    by (simp only: after_files_def)
  have listed: "f \<in> set FILES" if "f \<in> set (take n FILES)" for f
    using that by (rule in_set_takeD)
  have src: "files ?w [f] = fs [f]" and dst: "files ?w [''en'', f] = fs [''en'', f]"
    if "f \<in> set FILES" for f
  proof -
    from that en_not_in_FILES have "f \<noteq> ''en''" by auto
    then show "files ?w [f] = fs [f]" by (simp add: mkdir_simps)
    show "files ?w [''en'', f] = fs [''en'', f]" by (simp add: mkdir_simps)
  qed
  have "notice (files ?w) f = notice fs f" if "f \<in> set (take n FILES)" for f
    by (intro notice_cong) (simp add: SRC_DIR_def src [OF listed [OF that]])
  then have same: "map (notice (files ?w)) (take n FILES) = map (notice fs) (take n FILES)"
    by simp
  have "stdout (for_each (take n FILES) translate_file ?w)
      = stdout ?w @ map (notice (files ?w)) (take n FILES)"
    by (rule loop_stdout [OF r(1) part'])
  then show "stdout (after_files n fs) = map (notice fs) (take n FILES)"
    unfolding same after_files_def by (simp add: mkdir_simps(2))
  have "accesses (files ?w) f = accesses fs f" if "f \<in> set (take n FILES)" for f
    by (intro accesses_cong) (simp add: SRC_DIR_def src [OF listed [OF that]])
  then have same': "map (accesses (files ?w)) (take n FILES) = map (accesses fs) (take n FILES)"
    by simp
  have first: "log ?w = [Mkdir DST_DIR]"
    unfolding mkdir_simps by (simp add: DST_DIR_def SRC_DIR_def)
  have "log (for_each (take n FILES) translate_file ?w)
      = log ?w @ concat (map (accesses (files ?w)) (take n FILES))"
    by (rule loop_log [OF r(1) part'])
  then show "log (after_files n fs) = Mkdir DST_DIR # concat (map (accesses fs) (take n FILES))"
    unfolding same' first after_files_def by simp
  show "\<forall>i < length FILES. files (after_files n fs) (DST_DIR @ [FILES ! i]) =
           (if i < n then translated_node fs (FILES ! i) else fs (DST_DIR @ [FILES ! i]))"
  proof (intro allI impI)
    fix i assume i: "i < length FILES"
    let ?f = "FILES ! i"
    from i have f: "?f \<in> set FILES" by simp
    show "files (after_files n fs) (DST_DIR @ [?f]) =
           (if i < n then translated_node fs ?f else fs (DST_DIR @ [?f]))"
    proof (cases "i < n")
      case True
      with i have taken: "?f \<in> set (take n FILES)"
        by (auto simp: in_set_conv_nth)
      have "files (for_each (take n FILES) translate_file ?w) [''en'', ?f] = translated_node fs ?f"
      proof (cases "fs [?f]")
        case None
        then have "files ?w [?f] = None" by (simp add: src [OF f])
        from loop_missing_untouched [OF this, of "take n FILES"]
        have "files (for_each (take n FILES) translate_file ?w) [''en'', ?f] = fs [''en'', ?f]"
          by (simp only: dst [OF f])
        moreover from None have "translated_node fs ?f = fs [''en'', ?f]"
          by (simp add: translated_node_def SRC_DIR_def DST_DIR_def)
        ultimately show ?thesis by simp
      next
        case (Some node)
        then have "fs [?f] \<noteq> None" by simp
        from main_text [OF ok f this] obtain c where c: "fs [?f] = Some (Text c)" ..
        then have "files ?w [?f] = Some (Text c)" by (simp add: src [OF f])
        from loop_written [OF r(1) part' taken this] c show ?thesis
          by (simp add: translated_node_def fake_translate_def SRC_DIR_def)
      qed
      with True show ?thesis
        by (simp add: after_files_def DST_DIR_def SRC_DIR_def)
    next
      case False
      from nth_not_in_take [OF distinct_FILES i False]
      have "\<forall>g \<in> set (take n FILES). [''en'', ?f] \<noteq> [''en'', g]" by auto
      then have "files (for_each (take n FILES) translate_file ?w) [''en'', ?f] = files ?w [''en'', ?f]"
        by (rule loop_frame)
      then have "files (for_each (take n FILES) translate_file ?w) [''en'', ?f] = fs [''en'', ?f]"
        by (simp only: dst [OF f])
      with False show ?thesis
        by (simp add: after_files_def DST_DIR_def SRC_DIR_def)
    qed
  qed
qed

section \<open>What a run depends on\<close>

text \<open>
  Two runs from file systems that agree on the source directory, on \<open>en\<close>, and on the
  source and destination paths of the nine names print the same lines, end the same way,
  make the same calls and leave the same destination files.
\<close>

lemma run_determined_by_footprint:
  assumes "\<forall>p \<in> footprint. fs1 p = fs2 p"
  shows "stdout (main fs1) = stdout (main fs2) \<and>
         raised (main fs1) = raised (main fs2) \<and>
         log (main fs1) = log (main fs2) \<and>
         (\<forall>f \<in> set FILES. files (main fs1) (DST_DIR @ [f]) = files (main fs2) (DST_DIR @ [f]))"
proof -
  from assms have root: "fs1 [] = fs2 []" and en: "fs1 [''en''] = fs2 [''en'']"
    by (simp_all add: footprint_def SRC_DIR_def DST_DIR_def)
  from assms
  have each: "\<forall>f \<in> set FILES. fs1 [f] = fs2 [f] \<and> fs1 [''en'', f] = fs2 [''en'', f]"
    by (simp add: footprint_def SRC_DIR_def DST_DIR_def)
  from main_depends [OF root en each] show ?thesis
    by (simp add: SRC_DIR_def DST_DIR_def)
qed

section \<open>The properties of the specification\<close>

text \<open>
  C1. In a run that no exception cuts short, every listed name that exists in the source
  directory has a destination file \<open>en/<name>\<close> afterwards, and the content of that file
  starts with the marker line.
\<close>

theorem translated_file_starts_with_marker:
  assumes "raised (main fs) = None" and "f \<in> set FILES" and "fs (SRC_DIR @ [f]) \<noteq> None"
  shows "\<exists>t. files (main fs) (DST_DIR @ [f]) = Some (Text t) \<and>
    prefix (''<!-- TRANSLATED TO ENGLISH (replace with real translation) -->'' @ [newline]) t"
proof -
  from assms(3) have "fs [f] \<noteq> None" by (simp add: SRC_DIR_def)
  from main_text [OF assms(1,2) this] obtain c where c: "fs [f] = Some (Text c)" ..
  from main_written [OF assms(1,2) c]
  have "files (main fs) (DST_DIR @ [f]) = Some (Text (MARKER @ universal_newlines c))"
    by (simp add: DST_DIR_def SRC_DIR_def)
  then show ?thesis by (auto simp: MARKER_def)
qed

theorem translated_file_starts_with_marker_witness:
  "raised (main example_docs) = None \<and> ''OVERVIEW.md'' \<in> set FILES \<and>
   example_docs (SRC_DIR @ [''OVERVIEW.md'']) \<noteq> None \<and>
   (\<exists>t. files (main example_docs) (DST_DIR @ [''OVERVIEW.md'']) = Some (Text t) \<and>
     prefix (''<!-- TRANSLATED TO ENGLISH (replace with real translation) -->'' @ [newline]) t)"
proof -
  have 1: "raised (main example_docs) = None" by (rule example_docs_runs_clean)
  have 2: "''OVERVIEW.md'' \<in> set FILES" by (simp add: FILES_def)
  have 3: "example_docs (SRC_DIR @ [''OVERVIEW.md'']) \<noteq> None"
    by (simp add: example_docs_def SRC_DIR_def)
  from translated_file_starts_with_marker [OF 1 2 3] 1 2 3 show ?thesis by blast
qed

text \<open>
  C2. The example of the specification: in a run that no exception cuts short, a source
  file \<open>FAQ.md\<close> holding \<open># FAQ\<close> and a newline gives a destination file holding the
  marker line followed by exactly that text.
\<close>

theorem faq_example:
  assumes "raised (main fs) = None"
    and "fs (SRC_DIR @ [''FAQ.md'']) = Some (Text (''# FAQ'' @ [newline]))"
  shows "files (main fs) (DST_DIR @ [''FAQ.md'']) =
    Some (Text (''<!-- TRANSLATED TO ENGLISH (replace with real translation) -->'' @ [newline]
                  @ ''# FAQ'' @ [newline]))"
proof -
  have "''FAQ.md'' \<in> set FILES" by (simp add: FILES_def)
  from main_written [OF assms(1) this, of "''# FAQ'' @ [newline]"] assms(2)
  show ?thesis
    unfolding faq_text_plain by (simp add: DST_DIR_def SRC_DIR_def MARKER_def)
qed

theorem faq_example_witness:
  "raised (main example_docs) = None \<and>
   example_docs (SRC_DIR @ [''FAQ.md'']) = Some (Text (''# FAQ'' @ [newline])) \<and>
   files (main example_docs) (DST_DIR @ [''FAQ.md'']) =
    Some (Text (''<!-- TRANSLATED TO ENGLISH (replace with real translation) -->'' @ [newline]
                  @ ''# FAQ'' @ [newline]))"
proof -
  have 1: "raised (main example_docs) = None" by (rule example_docs_runs_clean)
  have 2: "example_docs (SRC_DIR @ [''FAQ.md'']) = Some (Text (''# FAQ'' @ [newline]))"
    by (simp add: example_docs_def SRC_DIR_def)
  from faq_example [OF 1 2] 1 2 show ?thesis by blast
qed

text \<open>
  C3. A listed name with no source file: the run leaves the destination path of that name
  as it was (nothing is created there); a run that no exception cuts short has printed
  \<open>Source file missing: <name>\<close>; and the loop body for such a name raises nothing,
  changes no file and only prints that notice.
\<close>

theorem missing_source_skipped:
  assumes "f \<in> set FILES" and "fs (SRC_DIR @ [f]) = None"
  shows "files (main fs) (DST_DIR @ [f]) = fs (DST_DIR @ [f]) \<and>
    (raised (main fs) = None \<longrightarrow> ''Source file missing: '' @ f \<in> set (stdout (main fs))) \<and>
    (\<forall>w :: world. files w (SRC_DIR @ [f]) = None \<longrightarrow>
       raised (translate_file f w) = raised w \<and>
       files (translate_file f w) = files w \<and>
       stdout (translate_file f w) = stdout w @ [''Source file missing: '' @ f])"
proof (intro conjI impI allI)
  from assms(2) have none: "fs [f] = None" by (simp add: SRC_DIR_def)
  from main_missing_untouched [of f fs, OF assms(1) none]
  show "files (main fs) (DST_DIR @ [f]) = fs (DST_DIR @ [f])"
    by (simp add: DST_DIR_def SRC_DIR_def)
  show "''Source file missing: '' @ f \<in> set (stdout (main fs))" if "raised (main fs) = None"
  proof -
    have "notice fs f \<in> set (map (notice fs) FILES)"
      using assms(1) by simp
    then show ?thesis
      using assms(2) by (simp add: main_stdout [OF that] notice_def)
  qed
next
  fix w :: world assume "files w (SRC_DIR @ [f]) = None"
  then have none: "files w [f] = None" by (simp add: SRC_DIR_def)
  then show "raised (translate_file f w) = raised w"
    by (simp add: tf_simps)
  from none show "files (translate_file f w) = files w"
    by (simp add: tf_simps)
  from none show "stdout (translate_file f w) = stdout w @ [''Source file missing: '' @ f]"
    by (simp add: tf_simps)
qed

theorem missing_source_skipped_witness:
  "''QUICK_START.md'' \<in> set FILES \<and> example_docs (SRC_DIR @ [''QUICK_START.md'']) = None \<and>
   raised (main example_docs) = None \<and>
   files (main example_docs) (DST_DIR @ [''QUICK_START.md'']) = None \<and>
   ''Source file missing: QUICK_START.md'' \<in> set (stdout (main example_docs))"
proof -
  have 1: "''QUICK_START.md'' \<in> set FILES" by (simp add: FILES_def)
  have 2: "example_docs (SRC_DIR @ [''QUICK_START.md'']) = None"
    by (simp add: example_docs_def SRC_DIR_def)
  have 3: "raised (main example_docs) = None" by (rule example_docs_runs_clean)
  have 4: "example_docs (DST_DIR @ [''QUICK_START.md'']) = None"
    by (simp add: example_docs_def SRC_DIR_def DST_DIR_def)
  from missing_source_skipped [of "''QUICK_START.md''" example_docs, OF 1 2] 1 2 3 4 show ?thesis by simp
qed

text \<open>
  C4. The link-rewriting loop returns its input unchanged, for every text and every file
  name, because each \<open>replace\<close> puts a substring in place of itself. So a destination file
  written by a run that no exception cuts short holds exactly \<open>fake_translate\<close> of the
  content read from the source, which is the content of the source itself when that has no
  carriage return.
\<close>

theorem link_rewrite_is_noop:
  "adjust_links fname s = s \<and>
   replace s (''./'' @ f2) (''./'' @ f2) = s \<and>
   (raised (main fs) = None \<and> f \<in> set FILES \<and> fs (SRC_DIR @ [f]) = Some (Text c) \<longrightarrow>
      files (main fs) (DST_DIR @ [f]) = Some (Text (fake_translate (universal_newlines c))) \<and>
      (carriage_return \<notin> set c \<longrightarrow>
         files (main fs) (DST_DIR @ [f]) = Some (Text (fake_translate c))))"
proof (intro conjI impI)
  show "adjust_links fname s = s" by (rule adjust_links_noop)
  show "replace s (''./'' @ f2) (''./'' @ f2) = s" by (rule replace_same)
  assume "raised (main fs) = None \<and> f \<in> set FILES \<and> fs (SRC_DIR @ [f]) = Some (Text c)"
  then have ok: "raised (main fs) = None" and f: "f \<in> set FILES" and c: "fs [f] = Some (Text c)"
    by (simp_all add: SRC_DIR_def)
  from main_written [OF ok f c]
  show read: "files (main fs) (DST_DIR @ [f]) = Some (Text (fake_translate (universal_newlines c)))"
    by (simp add: DST_DIR_def SRC_DIR_def fake_translate_def)
  show "files (main fs) (DST_DIR @ [f]) = Some (Text (fake_translate c))"
    if "carriage_return \<notin> set c"
    using read by (simp only: universal_newlines_plain [OF that])
qed

theorem link_rewrite_is_noop_witness:
  "raised (main example_docs) = None \<and> ''OVERVIEW.md'' \<in> set FILES \<and>
   example_docs (SRC_DIR @ [''OVERVIEW.md'']) = Some (Text (''See [FAQ](./FAQ.md).'' @ [newline])) \<and>
   adjust_links ''OVERVIEW.md'' (''See [FAQ](./FAQ.md).'' @ [newline]) = ''See [FAQ](./FAQ.md).'' @ [newline] \<and>
   files (main example_docs) (DST_DIR @ [''OVERVIEW.md'']) =
     Some (Text (fake_translate (''See [FAQ](./FAQ.md).'' @ [newline])))"
proof -
  have 1: "raised (main example_docs) = None" by (rule example_docs_runs_clean)
  have 2: "''OVERVIEW.md'' \<in> set FILES" by (simp add: FILES_def)
  have 3: "example_docs (SRC_DIR @ [''OVERVIEW.md'']) = Some (Text (''See [FAQ](./FAQ.md).'' @ [newline]))"
    by (simp add: example_docs_def SRC_DIR_def)
  from link_rewrite_is_noop [of "''OVERVIEW.md''" "''See [FAQ](./FAQ.md).'' @ [newline]" _ example_docs
      "''OVERVIEW.md''" "''See [FAQ](./FAQ.md).'' @ [newline]"] 1 2 3
  show ?thesis
    unfolding overview_text_plain by blast
qed

text \<open>
  C5. Running \<open>main\<close> again on the file system the first run left gives the same file
  system, from every initial state, and ends the same way (with the same exception or with
  none). In particular a destination file still holds the marker once, in front of the
  content read from the source, which is the content of the source itself when that has no
  carriage return.
\<close>

theorem rerun_idempotent:
  "files (main (files (main fs))) = files (main fs) \<and>
   raised (main (files (main fs))) = raised (main fs) \<and>
   (\<forall>f \<in> set FILES. \<forall>c. raised (main fs) = None \<and> fs (SRC_DIR @ [f]) = Some (Text c) \<longrightarrow>
      files (main (files (main fs))) (DST_DIR @ [f]) =
        Some (Text (MARKER @ universal_newlines c)) \<and>
      (carriage_return \<notin> set c \<longrightarrow>
         files (main (files (main fs))) (DST_DIR @ [f]) = Some (Text (MARKER @ c))))"
proof (intro conjI ballI allI impI)
  show "files (main (files (main fs))) = files (main fs)"
    using main_idem [of fs] by simp
  show "raised (main (files (main fs))) = raised (main fs)"
    using main_idem [of fs] by simp
next
  fix f c
  assume f: "f \<in> set FILES"
    and "raised (main fs) = None \<and> fs (SRC_DIR @ [f]) = Some (Text c)"
  then have ok: "raised (main fs) = None" and c: "fs [f] = Some (Text c)"
    by (simp_all add: SRC_DIR_def)
  have "files (main (files (main fs))) (DST_DIR @ [f]) = files (main fs) (DST_DIR @ [f])"
    using main_idem [of fs] by simp
  also have "\<dots> = Some (Text (MARKER @ universal_newlines c))"
    using main_written [OF ok f c] by (simp add: DST_DIR_def SRC_DIR_def)
  finally show read: "files (main (files (main fs))) (DST_DIR @ [f]) =
      Some (Text (MARKER @ universal_newlines c))" .
  show "files (main (files (main fs))) (DST_DIR @ [f]) = Some (Text (MARKER @ c))"
    if "carriage_return \<notin> set c"
    using read by (simp only: universal_newlines_plain [OF that])
qed

theorem rerun_idempotent_witness:
  "''FAQ.md'' \<in> set FILES \<and> raised (main example_docs) = None \<and>
   example_docs (SRC_DIR @ [''FAQ.md'']) = Some (Text (''# FAQ'' @ [newline])) \<and>
   files (main (files (main example_docs))) (DST_DIR @ [''FAQ.md'']) =
     Some (Text (MARKER @ ''# FAQ'' @ [newline]))"
proof -
  have 1: "''FAQ.md'' \<in> set FILES" by (simp add: FILES_def)
  have 2: "raised (main example_docs) = None" by (rule example_docs_runs_clean)
  have 3: "example_docs (SRC_DIR @ [''FAQ.md'']) = Some (Text (''# FAQ'' @ [newline]))"
    by (simp add: example_docs_def SRC_DIR_def)
  from rerun_idempotent [of example_docs] 1 2 3
  have "files (main (files (main example_docs))) (DST_DIR @ [''FAQ.md'']) =
      Some (Text (MARKER @ universal_newlines (''# FAQ'' @ [newline])))"
    by blast
  with 1 2 3 show ?thesis
    unfolding faq_text_plain by blast
qed

text \<open>
  C6, as the code has it. In a run that no exception cuts short, every listed name that
  exists in the source directory is a text file, and the path of the same name below \<open>en\<close>
  holds the marker followed by the content as the text-mode read returns it: every CR LF
  and every lone CR of the source has become LF, so no carriage return is left. When the
  source has no carriage return, the output is the marker followed by the source content
  unchanged, which is then a suffix of the output. The marker is one line: it ends in a
  newline and has no other.
\<close>

theorem output_is_marker_then_content_read:
  assumes "raised (main fs) = None" and "f \<in> set FILES" and "fs (SRC_DIR @ [f]) \<noteq> None"
  shows "(\<exists>c out. fs (SRC_DIR @ [f]) = Some (Text c) \<and>
            files (main fs) (DST_DIR @ [f]) = Some (Text out) \<and>
            out = MARKER @ universal_newlines c \<and>
            carriage_return \<notin> set (universal_newlines c) \<and>
            (carriage_return \<notin> set c \<longrightarrow> out = MARKER @ c \<and> suffix c out)) \<and>
         (\<exists>line. MARKER = line @ [newline] \<and> newline \<notin> set line) \<and>
         DST_DIR @ [f] = SRC_DIR @ [''en'', f]"
proof (intro conjI)
  from assms(3) have "fs [f] \<noteq> None" by (simp add: SRC_DIR_def)
  from main_text [OF assms(1,2) this] obtain c where c: "fs [f] = Some (Text c)" ..
  have out: "files (main fs) (DST_DIR @ [f]) = Some (Text (MARKER @ universal_newlines c))"
    using main_written [OF assms(1,2) c] by (simp add: DST_DIR_def SRC_DIR_def)
  have plain: "universal_newlines c = c \<and> suffix c (MARKER @ c)"
    if "carriage_return \<notin> set c"
    using universal_newlines_plain [OF that] by (simp add: suffix_def)
  from c out plain universal_newlines_no_cr [of c]
  show "\<exists>c out. fs (SRC_DIR @ [f]) = Some (Text c) \<and>
            files (main fs) (DST_DIR @ [f]) = Some (Text out) \<and>
            out = MARKER @ universal_newlines c \<and>
            carriage_return \<notin> set (universal_newlines c) \<and>
            (carriage_return \<notin> set c \<longrightarrow> out = MARKER @ c \<and> suffix c out)"
    by (simp add: SRC_DIR_def)
  show "\<exists>line. MARKER = line @ [newline] \<and> newline \<notin> set line"
    by (simp add: MARKER_def newline_def)
  show "DST_DIR @ [f] = SRC_DIR @ [''en'', f]"
    by (simp add: DST_DIR_def)
qed

lemma crlf_docs_runs_clean: "raised (main crlf_docs) = None"
  unfolding main_returns_iff
  by (simp add: runs_clean_def readable_def FILES_def crlf_docs_def SRC_DIR_def DST_DIR_def)

lemma crlf_docs_output:
  "files (main crlf_docs) (DST_DIR @ [''FAQ.md'']) = Some (Text (MARKER @ ''# FAQ'' @ [newline]))"
proof -
  have "''FAQ.md'' \<in> set FILES" by (simp add: FILES_def)
  from main_written [OF crlf_docs_runs_clean this, of "''# FAQ'' @ [carriage_return, newline]"]
  show ?thesis
    unfolding crlf_text_read by (simp add: crlf_docs_def DST_DIR_def SRC_DIR_def)
qed

theorem output_is_marker_then_content_read_witness:
  "raised (main crlf_docs) = None \<and> ''FAQ.md'' \<in> set FILES \<and>
   crlf_docs (SRC_DIR @ [''FAQ.md'']) = Some (Text (''# FAQ'' @ [carriage_return, newline])) \<and>
   files (main crlf_docs) (DST_DIR @ [''FAQ.md'']) = Some (Text (MARKER @ ''# FAQ'' @ [newline]))"
proof -
  have 1: "raised (main crlf_docs) = None" by (rule crlf_docs_runs_clean)
  have 2: "''FAQ.md'' \<in> set FILES" by (simp add: FILES_def)
  have src: "crlf_docs (SRC_DIR @ [''FAQ.md'']) = Some (Text (''# FAQ'' @ [carriage_return, newline]))"
    by (simp add: crlf_docs_def SRC_DIR_def)
  then have 3: "crlf_docs (SRC_DIR @ [''FAQ.md'']) \<noteq> None"
    by (simp only: option.distinct not_False_eq_True)
  note all = output_is_marker_then_content_read [of crlf_docs "''FAQ.md''", OF 1 2 3]
  from all [THEN conjunct1] obtain c out
    where c: "crlf_docs (SRC_DIR @ [''FAQ.md'']) = Some (Text c)"
      and out: "files (main crlf_docs) (DST_DIR @ [''FAQ.md'']) = Some (Text out)"
      and eq: "out = MARKER @ universal_newlines c"
    by (elim exE conjE)
  from c have "c = ''# FAQ'' @ [carriage_return, newline]"
    by (simp only: src option.inject node.inject)
  then have "out = MARKER @ ''# FAQ'' @ [newline]"
    using eq by (simp only: crlf_text_read)
  with out have "files (main crlf_docs) (DST_DIR @ [''FAQ.md'']) =
      Some (Text (MARKER @ ''# FAQ'' @ [newline]))"
    by (simp only:)
  with 1 2 src show ?thesis by (simp only: simp_thms)
qed

text \<open>
  C6, as the specification words it, with the original content unmodified and a suffix of
  the output, fails on a source whose line ends with CR LF: the run returns, and the
  destination holds the marker and the text with LF alone.
\<close>

theorem output_keeps_content_counterexample:
  "raised (main crlf_docs) = None \<and> ''FAQ.md'' \<in> set FILES \<and>
   crlf_docs (SRC_DIR @ [''FAQ.md'']) = Some (Text (''# FAQ'' @ [carriage_return, newline])) \<and>
   files (main crlf_docs) (DST_DIR @ [''FAQ.md'']) = Some (Text (MARKER @ ''# FAQ'' @ [newline])) \<and>
   files (main crlf_docs) (DST_DIR @ [''FAQ.md'']) \<noteq>
     Some (Text (MARKER @ ''# FAQ'' @ [carriage_return, newline])) \<and>
   \<not> suffix (''# FAQ'' @ [carriage_return, newline]) (MARKER @ ''# FAQ'' @ [newline])"
proof -
  have 1: "''FAQ.md'' \<in> set FILES" by (simp add: FILES_def)
  have 2: "crlf_docs (SRC_DIR @ [''FAQ.md'']) = Some (Text (''# FAQ'' @ [carriage_return, newline]))"
    by (simp add: crlf_docs_def SRC_DIR_def)
  have 3: "''# FAQ'' @ [newline] \<noteq> ''# FAQ'' @ [carriage_return, newline]"
    by (simp add: carriage_return_def newline_def)
  have 4: "\<not> suffix (''# FAQ'' @ [carriage_return, newline]) (MARKER @ ''# FAQ'' @ [newline])"
    by (simp add: MARKER_def suffix_Cons carriage_return_def newline_def)
  from crlf_docs_runs_clean 1 2 3 4 crlf_docs_output show ?thesis by simp
qed

text \<open>
  C7. Every existence test and every read of a run is on a listed name directly in the source
  directory, every write is on a listed name directly in \<open>en\<close>, and the only directory
  made is \<open>en\<close>. From every initial state in which the source directory is a directory
  and \<open>en\<close> is absent, \<open>en\<close> is a directory after the run.
\<close>

theorem reads_source_writes_destination:
  "(\<forall>p. Exists p \<in> set (log (main fs)) \<or> Read p \<in> set (log (main fs)) \<longrightarrow>
        p \<in> (\<lambda>f. SRC_DIR @ [f]) ` set FILES) \<and>
   (\<forall>p. Write p \<in> set (log (main fs)) \<longrightarrow> p \<in> (\<lambda>f. DST_DIR @ [f]) ` set FILES) \<and>
   (\<forall>p. Mkdir p \<in> set (log (main fs)) \<longrightarrow> p = DST_DIR) \<and>
   (fs SRC_DIR = Some Dir \<and> fs DST_DIR = None \<longrightarrow> files (main fs) DST_DIR = Some Dir)"
proof (intro conjI allI impI)
  note sub = main_log_subset [of fs]
  fix p
  show "p \<in> (\<lambda>f. SRC_DIR @ [f]) ` set FILES"
    if "Exists p \<in> set (log (main fs)) \<or> Read p \<in> set (log (main fs))"
    using that sub by (auto simp: SRC_DIR_def)
  show "p \<in> (\<lambda>f. DST_DIR @ [f]) ` set FILES" if "Write p \<in> set (log (main fs))"
    using that sub by (auto simp: SRC_DIR_def DST_DIR_def)
  show "p = DST_DIR" if "Mkdir p \<in> set (log (main fs))"
    using that sub by (auto simp: SRC_DIR_def DST_DIR_def)
next
  assume "fs SRC_DIR = Some Dir \<and> fs DST_DIR = None"
  then have "fs [] = Some Dir" "fs [''en''] = None"
    by (simp_all add: SRC_DIR_def DST_DIR_def)
  then have "files (main fs) [''en''] = Some Dir"
    by (rule main_creates_dst_dir)
  then show "files (main fs) DST_DIR = Some Dir"
    by (simp add: SRC_DIR_def DST_DIR_def)
qed

theorem reads_source_writes_destination_witness:
  "Read (SRC_DIR @ [''FAQ.md'']) \<in> set (log (main example_docs)) \<and>
   SRC_DIR @ [''FAQ.md''] \<in> (\<lambda>f. SRC_DIR @ [f]) ` set FILES \<and>
   Write (DST_DIR @ [''FAQ.md'']) \<in> set (log (main example_docs)) \<and>
   DST_DIR @ [''FAQ.md''] \<in> (\<lambda>f. DST_DIR @ [f]) ` set FILES \<and>
   Mkdir DST_DIR \<in> set (log (main example_docs)) \<and>
   example_docs SRC_DIR = Some Dir \<and> example_docs DST_DIR = None \<and>
   files (main example_docs) DST_DIR = Some Dir"
proof -
  have 1: "Read (SRC_DIR @ [''FAQ.md'']) \<in> set (log (main example_docs))"
    and 2: "Write (DST_DIR @ [''FAQ.md'']) \<in> set (log (main example_docs))"
    and 3: "Mkdir DST_DIR \<in> set (log (main example_docs))"
    by (simp_all add: example_docs_log SRC_DIR_def DST_DIR_def)
  have 4: "example_docs SRC_DIR = Some Dir \<and> example_docs DST_DIR = None"
    by (simp add: example_docs_def SRC_DIR_def DST_DIR_def)
  from reads_source_writes_destination [of example_docs] 1 2 3 4 show ?thesis by blast
qed

text \<open>
  C8. The list has nine names, all different. What a run prints is an initial part of the
  notices of the names taken in list order, and a run that no exception cuts short prints
  all nine, one per name. Its file-system calls are the \<open>mkdir\<close> and then, name after name
  in list order, the existence test, the read and the write of that name: the calls of two
  names never interleave. Such a run leaves every destination file translated, and it does so
  one name at a time: after the first \<open>n\<close> turns of the loop, for every \<open>n\<close> up to nine, the
  first \<open>n\<close> names have been printed and called for, the destination files of these names hold
  their translations, the destination paths of all later names hold what they held at the
  start, and the rest of the run is the loop over the remaining names.
\<close>

theorem files_processed_in_list_order:
  "length FILES = 9 \<and> distinct FILES \<and>
   prefix (stdout (main fs)) (map (notice fs) FILES) \<and>
   (raised (main fs) = None \<longrightarrow>
      stdout (main fs) = map (notice fs) FILES \<and>
      log (main fs) = Mkdir DST_DIR # concat (map (accesses fs) FILES) \<and>
      (\<forall>f \<in> set FILES. files (main fs) (DST_DIR @ [f]) = translated_node fs f) \<and>
      (\<forall>n \<le> length FILES.
         raised (after_files n fs) = None \<and>
         main fs = for_each (drop n FILES) translate_file (after_files n fs) \<and>
         stdout (after_files n fs) = map (notice fs) (take n FILES) \<and>
         log (after_files n fs) = Mkdir DST_DIR # concat (map (accesses fs) (take n FILES)) \<and>
         (\<forall>i < length FILES.
            files (after_files n fs) (DST_DIR @ [FILES ! i]) =
              (if i < n then translated_node fs (FILES ! i) else fs (DST_DIR @ [FILES ! i])))))"
proof (intro conjI impI allI ballI)
  show "length FILES = 9" by (simp add: FILES_def)
  show "distinct FILES" by (rule distinct_FILES)
  show "prefix (stdout (main fs)) (map (notice fs) FILES)" by (rule main_stdout_prefix)
  show "stdout (main fs) = map (notice fs) FILES" if "raised (main fs) = None"
    using that by (rule main_stdout)
  show "log (main fs) = Mkdir DST_DIR # concat (map (accesses fs) FILES)" if "raised (main fs) = None"
    using that by (rule main_log)
next
  fix f assume ok: "raised (main fs) = None" and f: "f \<in> set FILES"
  then obtain i where i: "i < length FILES" and fi: "FILES ! i = f"
    by (auto simp: in_set_conv_nth)
  have whole: "after_files (length FILES) fs = main fs"
    using after_files_run(2) [OF ok le_refl] by simp
  from after_files_run(5) [OF ok le_refl] i fi
  show "files (main fs) (DST_DIR @ [f]) = translated_node fs f"
    unfolding whole by auto
next
  fix n assume ok: "raised (main fs) = None" and n: "n \<le> length FILES"
  show "raised (after_files n fs) = None"
    by (rule after_files_run(1) [OF ok n])
  show "main fs = for_each (drop n FILES) translate_file (after_files n fs)"
    by (rule after_files_run(2) [OF ok n])
  show "stdout (after_files n fs) = map (notice fs) (take n FILES)"
    by (rule after_files_run(3) [OF ok n])
  show "log (after_files n fs) = Mkdir DST_DIR # concat (map (accesses fs) (take n FILES))"
    by (rule after_files_run(4) [OF ok n])
  fix i assume "i < length FILES"
  with after_files_run(5) [OF ok n]
  show "files (after_files n fs) (DST_DIR @ [FILES ! i]) =
          (if i < n then translated_node fs (FILES ! i) else fs (DST_DIR @ [FILES ! i]))"
    by blast
qed

theorem files_processed_in_list_order_witness:
  "raised (main example_docs) = None \<and>
   stdout (main example_docs) =
     [''Translated OVERVIEW.md -> en/OVERVIEW.md'',
      ''Source file missing: QUICK_START.md'',
      ''Source file missing: FRONTEND_INTEGRATION.md'',
      ''Source file missing: INTERMEDIATE_GUIDE.md'',
      ''Source file missing: EXPERT_GUIDE.md'',
      ''Source file missing: MIGRATION_V1_V2.md'',
      ''Source file missing: IMPLEMENTATION_NOTES.md'',
      ''Translated FAQ.md -> en/FAQ.md'',
      ''Source file missing: CONTRIBUTING.md''] \<and>
   stdout (after_files 1 example_docs) = [''Translated OVERVIEW.md -> en/OVERVIEW.md''] \<and>
   files (after_files 1 example_docs) (DST_DIR @ [''OVERVIEW.md'']) =
     Some (Text (MARKER @ ''See [FAQ](./FAQ.md).'' @ [newline])) \<and>
   files (after_files 1 example_docs) (DST_DIR @ [''FAQ.md'']) = None \<and>
   files (main example_docs) (DST_DIR @ [''FAQ.md'']) = Some (Text (MARKER @ ''# FAQ'' @ [newline]))"
proof -
  have 1: "raised (main example_docs) = None" by (rule example_docs_runs_clean)
  have 2: "map (notice example_docs) FILES =
     [''Translated OVERVIEW.md -> en/OVERVIEW.md'',
      ''Source file missing: QUICK_START.md'',
      ''Source file missing: FRONTEND_INTEGRATION.md'',
      ''Source file missing: INTERMEDIATE_GUIDE.md'',
      ''Source file missing: EXPERT_GUIDE.md'',
      ''Source file missing: MIGRATION_V1_V2.md'',
      ''Source file missing: IMPLEMENTATION_NOTES.md'',
      ''Translated FAQ.md -> en/FAQ.md'',
      ''Source file missing: CONTRIBUTING.md'']"
    by (simp add: FILES_def notice_def example_docs_def SRC_DIR_def DST_DIR_def)
  have 3: "map (notice example_docs) (take 1 FILES) = [''Translated OVERVIEW.md -> en/OVERVIEW.md'']"
    by (simp add: FILES_def notice_def example_docs_def SRC_DIR_def DST_DIR_def)
  have len: "(1::nat) \<le> length FILES" "(0::nat) < length FILES" "(7::nat) < length FILES"
    by (simp_all add: FILES_def)
  have nth: "FILES ! 0 = ''OVERVIEW.md''" "FILES ! 7 = ''FAQ.md''"
    by (simp_all add: FILES_def)
  have faq: "''FAQ.md'' \<in> set FILES" by (simp add: FILES_def)
  have overview: "example_docs (SRC_DIR @ [''OVERVIEW.md'']) =
      Some (Text (''See [FAQ](./FAQ.md).'' @ [newline]))"
    by (simp add: example_docs_def SRC_DIR_def)
  have 4: "translated_node example_docs ''OVERVIEW.md'' =
      Some (Text (MARKER @ ''See [FAQ](./FAQ.md).'' @ [newline]))"
    by (simp only: translated_node_def overview option.case node.case overview_text_plain
        fake_translate_def)
  have faq_src: "example_docs (SRC_DIR @ [''FAQ.md'']) = Some (Text (''# FAQ'' @ [newline]))"
    by (simp add: example_docs_def SRC_DIR_def)
  have 5: "translated_node example_docs ''FAQ.md'' = Some (Text (MARKER @ ''# FAQ'' @ [newline]))"
    by (simp only: translated_node_def faq_src option.case node.case faq_text_plain
        fake_translate_def)
  have 6: "example_docs (DST_DIR @ [''FAQ.md'']) = None"
    by (simp add: example_docs_def SRC_DIR_def DST_DIR_def)
  note all = files_processed_in_list_order [of example_docs]
  note run = all [THEN conjunct2, THEN conjunct2, THEN conjunct2, THEN mp, OF 1]
  note a = run [THEN conjunct1]
  note b = run [THEN conjunct2, THEN conjunct2, THEN conjunct1, THEN bspec, OF faq]
  note c = run [THEN conjunct2, THEN conjunct2, THEN conjunct2, THEN spec, THEN mp, OF len(1)]
  note d = c [THEN conjunct2, THEN conjunct2, THEN conjunct1]
  note e = c [THEN conjunct2, THEN conjunct2, THEN conjunct2, THEN conjunct2]
  note e0 = e [THEN spec, THEN mp, OF len(2)]
  note e7 = e [THEN spec, THEN mp, OF len(3)]
  have s: "stdout (main example_docs) = map (notice example_docs) FILES" by (rule a)
  have s1: "stdout (after_files 1 example_docs) = map (notice example_docs) (take 1 FILES)"
    by (rule d)
  have f0: "files (after_files 1 example_docs) (DST_DIR @ [''OVERVIEW.md'']) =
      translated_node example_docs ''OVERVIEW.md''"
    using e0 by (simp add: nth)
  have f7: "files (after_files 1 example_docs) (DST_DIR @ [''FAQ.md'']) =
      example_docs (DST_DIR @ [''FAQ.md''])"
    using e7 by (simp add: nth)
  have g: "files (main example_docs) (DST_DIR @ [''FAQ.md'']) = translated_node example_docs ''FAQ.md''"
    by (rule b)
  from 1 s s1 f0 f7 g show ?thesis
    by (simp only: 2 3 4 5 6 simp_thms)
qed

text \<open>
  C9. Frame: a path other than \<open>en\<close> and the nine paths \<open>en/<name>\<close> holds after the
  run what it held before, whether or not the run was cut short. In particular whatever
  exists directly in the source directory is unchanged.
\<close>

theorem writes_stay_in_destination:
  "(p \<noteq> DST_DIR \<and> p \<notin> (\<lambda>f. DST_DIR @ [f]) ` set FILES \<longrightarrow> files (main fs) p = fs p) \<and>
   (fs (SRC_DIR @ [name]) \<noteq> None \<longrightarrow> files (main fs) (SRC_DIR @ [name]) = fs (SRC_DIR @ [name])) \<and>
   length (map (\<lambda>f. DST_DIR @ [f]) FILES) = 9"
proof (intro conjI impI)
  assume "p \<noteq> DST_DIR \<and> p \<notin> (\<lambda>f. DST_DIR @ [f]) ` set FILES"
  then have "p \<noteq> [''en'']" "\<forall>f \<in> set FILES. p \<noteq> [''en'', f]"
    by (auto simp: DST_DIR_def SRC_DIR_def)
  then show "files (main fs) p = fs p" by (rule main_frame)
next
  assume present: "fs (SRC_DIR @ [name]) \<noteq> None"
  show "files (main fs) (SRC_DIR @ [name]) = fs (SRC_DIR @ [name])"
  proof (cases "name = ''en''")
    case True
    with present have "fs [''en''] \<noteq> None" by (simp add: SRC_DIR_def)
    from main_keeps_dst_dir [of fs, OF this] True show ?thesis by (simp add: SRC_DIR_def)
  next
    case False
    then have "files (main fs) [name] = fs [name]"
      by (intro main_frame) simp_all
    then show ?thesis by (simp add: SRC_DIR_def)
  qed
next
  show "length (map (\<lambda>f. DST_DIR @ [f]) FILES) = 9" by (simp add: FILES_def)
qed

theorem writes_stay_in_destination_witness:
  "[''README.md''] \<noteq> DST_DIR \<and> [''README.md''] \<notin> (\<lambda>f. DST_DIR @ [f]) ` set FILES \<and>
   files (main example_docs) [''README.md''] = Some (Text ''readme'') \<and>
   example_docs (SRC_DIR @ [''FAQ.md'']) \<noteq> None \<and>
   files (main example_docs) (SRC_DIR @ [''FAQ.md'']) = Some (Text (''# FAQ'' @ [newline]))"
proof -
  have 1: "[''README.md''] \<noteq> DST_DIR \<and> [''README.md''] \<notin> (\<lambda>f. DST_DIR @ [f]) ` set FILES"
    by (auto simp add: DST_DIR_def SRC_DIR_def)
  have 2: "example_docs [''README.md''] = Some (Text ''readme'')"
    by (simp add: example_docs_def)
  have 3: "example_docs (SRC_DIR @ [''FAQ.md'']) = Some (Text (''# FAQ'' @ [newline]))"
    by (simp add: example_docs_def SRC_DIR_def)
  from writes_stay_in_destination [of "[''README.md'']" example_docs "''FAQ.md''"] 1 2 3
  show ?thesis by simp
qed

end
